theory Spec2Isabelle
  imports Main "HOL-Library.Sublist"
begin

section \<open>Strings\<close>

text \<open>
  A Python string is modelled by the \<open>string\<close> of the bytes of its UTF-8 encoding. The
  program compares strings for equality, tests them for emptiness, removes the ASCII
  characters space, hyphen and underscore, and tests for a substring; on well-formed
  UTF-8 each of these gives on the bytes what it gives on the code points (an ASCII byte
  never stands inside the encoding of another character, and an encoded string can only
  occur in another at a character boundary).

  \<open>str.lower()\<close> is Python's own Unicode-aware function, not code of this program. It is
  a parameter \<open>lw\<close> of every function that calls it, and the theorems hold for every
  \<open>lw\<close>. What \<open>str.lower()\<close> does on ASCII strings is \<open>ascii_lower\<close>: the letters
  \<open>A\<close>..\<open>Z\<close> become \<open>a\<close>..\<open>z\<close>, every other ASCII character stays.
\<close>

type_synonym str_lower = "string \<Rightarrow> string"

definition is_ascii :: "char \<Rightarrow> bool" where
  "is_ascii c = ((of_char c :: nat) < 128)"

definition ascii_lower_char :: "char \<Rightarrow> char" where
  "ascii_lower_char c =
     (let n = (of_char c :: nat)
      in if 65 \<le> n \<and> n \<le> 90 then char_of (n + 32) else c)"

definition ascii_lower :: "string \<Rightarrow> string" where
  "ascii_lower s = map ascii_lower_char s"

text \<open>The fact about \<open>str.lower()\<close> that the examples on ASCII strings need.\<close>

definition lower_on_ascii :: "str_lower \<Rightarrow> bool" where
  "lower_on_ascii lw = (\<forall>s. list_all is_ascii s \<longrightarrow> lw s = ascii_lower s)"

text \<open>\<open>s.replace(c, '')\<close> for a one-character \<open>c\<close>: every occurrence of \<open>c\<close> is dropped.\<close>

definition replace_empty :: "char \<Rightarrow> string \<Rightarrow> string" where
  "replace_empty c s = filter (\<lambda>x. x \<noteq> c) s"

text \<open>\<open>needle in haystack\<close> on Python strings: \<open>needle\<close> occurs as a contiguous run.\<close>

fun str_in :: "string \<Rightarrow> string \<Rightarrow> bool" where
  "str_in needle [] = (needle = [])"
| "str_in needle (c # cs) = (prefix needle (c # cs) \<or> str_in needle cs)"

text \<open>
  The expression \<open>s.lower().replace(' ', '').replace('-', '').replace('_', '')\<close>, which
  \<open>filter_photos_by_camera\<close> applies to the camera model and to the machine tags.
\<close>

definition normalise :: "str_lower \<Rightarrow> string \<Rightarrow> string" where
  "normalise lw s =
     replace_empty (CHR ''_'') (replace_empty (CHR ''-'') (replace_empty (CHR '' '') (lw s)))"

section \<open>The remote service and the trace of effects\<close>

text \<open>
  An exception raised by a call of the \<open>flickrapi\<close> library: \<open>FlickrError\<close> (the service
  answered with an error) or anything else (a transport failure).
\<close>

datatype exn = FlickrError string | OtherError string

text \<open>
  A photo as \<open>flickr.photos.search\<close> returns it: \<open>photo['id']\<close> and
  \<open>photo.get('machine_tags')\<close> (\<open>None\<close> when the key is absent or null).
\<close>

record photo =
  photo_id :: string
  machine_tags :: "string option"

text \<open>\<open>response['photos']['photo']\<close> and \<open>int(response['photos']['pages'])\<close>.\<close>

record search_response =
  resp_photo :: "photo list"
  resp_pages :: int

text \<open>
  An entry of the EXIF list: \<open>tag.get('label')\<close>, \<open>tag.get('tag')\<close> and
  \<open>tag.get('raw')\<close>, which is a dictionary (with an optional \<open>_content\<close>) or a string.
\<close>

datatype raw_value = RawDict "string option" | RawStr string

record exif_tag =
  label :: "string option"
  tag :: "string option"
  raw :: "raw_value option"

text \<open>
  The answer of \<open>flickr.photos.getExif\<close>: the outer option is the key \<open>photo\<close>, the inner
  one the key \<open>exif\<close> below it.
\<close>

type_synonym exif_response = "exif_tag list option option"

text \<open>
  The \<open>FlickrAPI\<close> object: what each remote call answers, per request. The answer is a
  function of the request, so the same request is answered the same way during a run.
\<close>

record flickr =
  token_valid :: "string \<Rightarrow> exn + bool"
  authenticate_via_browser :: "string \<Rightarrow> exn + unit"
  photos_search :: "string \<Rightarrow> string \<Rightarrow> int \<Rightarrow> int \<Rightarrow> exn + search_response"
  photos_getExif :: "string \<Rightarrow> exn + exif_response"
  photosets_create :: "string \<Rightarrow> string \<Rightarrow> string \<Rightarrow> exn + string"
  photosets_addPhoto :: "string \<Rightarrow> string \<Rightarrow> exn + unit"

text \<open>The lines \<open>main\<close> prints, in the order of the source.\<close>

datatype message =
    MsgCredentialsError
  | MsgSearching string
  | MsgRetrieved nat
  | MsgNoPhotosFound string
  | MsgFound nat string
  | MsgAddingToExisting string
  | MsgDone
  | MsgCreating string
  | MsgCreated string
  | MsgAllAdded

text \<open>
  Everything the program does to the outside, in order: the remote calls with their
  arguments, \<open>time.sleep\<close> (in milliseconds) and \<open>print\<close>.
\<close>

datatype event =
    TokenValid string
  | AuthenticateViaBrowser string
  | PhotosSearch string string int int
  | PhotosGetExif string
  | PhotosetsCreate string string string
  | PhotosetsAddPhoto string string
  | Sleep nat
  | Print message

type_synonym trace = "event list"

fun is_network :: "event \<Rightarrow> bool" where
  "is_network (Sleep _) = False"
| "is_network (Print _) = False"
| "is_network _ = True"

fun is_album_call :: "event \<Rightarrow> bool" where
  "is_album_call (PhotosetsCreate _ _ _) = True"
| "is_album_call (PhotosetsAddPhoto _ _) = True"
| "is_album_call _ = False"

fun is_add_call :: "event \<Rightarrow> bool" where
  "is_add_call (PhotosetsAddPhoto _ _) = True"
| "is_add_call _ = False"

fun is_search_call :: "event \<Rightarrow> bool" where
  "is_search_call (PhotosSearch _ _ _ _) = True"
| "is_search_call _ = False"

section \<open>authenticate\<close>

definition authenticate ::
  "(string \<Rightarrow> string \<Rightarrow> flickr) \<Rightarrow> string \<Rightarrow> string \<Rightarrow> string \<Rightarrow> trace \<Rightarrow> (exn + flickr) \<times> trace" where
  "authenticate FlickrAPI api_key api_secret perms tr =
     (let fl = FlickrAPI api_key api_secret;
          tr1 = tr @ [TokenValid perms]
      in case token_valid fl perms of
           Inl e \<Rightarrow> (Inl e, tr1)
         | Inr ok \<Rightarrow>
             if \<not> ok then
               (let tr2 = tr1 @ [AuthenticateViaBrowser perms]
                in case authenticate_via_browser fl perms of
                     Inl e \<Rightarrow> (Inl e, tr2)
                   | Inr u \<Rightarrow> (Inr fl, tr2))
             else (Inr fl, tr1))"

section \<open>search_photos_by_user\<close>

text \<open>
  The \<open>while True\<close> loop, with the variables \<open>page\<close> and \<open>photos\<close>. It ends only when a
  page reports a page count that is at most its own number, so it is a partial function:
  \<open>None\<close> is a run that never returns.
\<close>

partial_function (option) search_loop ::
  "flickr \<Rightarrow> string \<Rightarrow> string \<Rightarrow> int \<Rightarrow> int \<Rightarrow> photo list \<Rightarrow> trace
     \<Rightarrow> ((exn + photo list) \<times> trace) option" where
  "search_loop fl user_id extras per_page page photos tr =
     (let tr1 = tr @ [PhotosSearch user_id extras per_page page]
      in case photos_search fl user_id extras per_page page of
           Inl e \<Rightarrow> Some (Inl e, tr1)
         | Inr response \<Rightarrow>
             (let photos1 = photos @ resp_photo response
              in if page \<ge> resp_pages response then Some (Inr photos1, tr1)
                 else search_loop fl user_id extras per_page (page + 1) photos1
                        (tr1 @ [Sleep 1000])))"

definition search_photos_by_user ::
  "flickr \<Rightarrow> string \<Rightarrow> string \<Rightarrow> int \<Rightarrow> trace \<Rightarrow> ((exn + photo list) \<times> trace) option" where
  "search_photos_by_user fl user_id extras per_page tr =
     search_loop fl user_id extras per_page 1 [] tr"

section \<open>get_camera_for_photo\<close>

text \<open>\<open>tag.get('label', '').lower() == 'model' or tag.get('tag', '').lower() == 'model'\<close>\<close>

definition is_model_tag :: "str_lower \<Rightarrow> exif_tag \<Rightarrow> bool" where
  "is_model_tag lw t =
     (lw (case label t of None \<Rightarrow> [] | Some s \<Rightarrow> s) = ''model''
      \<or> lw (case tag t of None \<Rightarrow> [] | Some s \<Rightarrow> s) = ''model'')"

text \<open>The value returned for a Model entry: \<open>raw.get('_content')\<close> of a dictionary, else \<open>raw\<close>.\<close>

definition raw_content :: "exif_tag \<Rightarrow> string option" where
  "raw_content t =
     (case raw t of
        None \<Rightarrow> None
      | Some (RawDict c) \<Rightarrow> c
      | Some (RawStr s) \<Rightarrow> Some s)"

text \<open>The \<open>for tag in tags\<close> loop: it returns at the first Model entry.\<close>

fun scan_tags :: "str_lower \<Rightarrow> exif_tag list \<Rightarrow> string option" where
  "scan_tags lw [] = None"
| "scan_tags lw (t # ts) = (if is_model_tag lw t then raw_content t else scan_tags lw ts)"

text \<open>\<open>exif.get('photo', {}).get('exif', [])\<close>\<close>

definition exif_tags :: "exif_response \<Rightarrow> exif_tag list" where
  "exif_tags exif =
     (case exif of
        None \<Rightarrow> []
      | Some None \<Rightarrow> []
      | Some (Some tags) \<Rightarrow> tags)"

definition get_camera_for_photo ::
  "str_lower \<Rightarrow> flickr \<Rightarrow> string \<Rightarrow> trace \<Rightarrow> (exn + string option) \<times> trace" where
  "get_camera_for_photo lw fl pid tr =
     (let tr1 = tr @ [PhotosGetExif pid]
      in case photos_getExif fl pid of
           Inl (FlickrError m) \<Rightarrow> (Inr None, tr1)
         | Inl (OtherError m) \<Rightarrow> (Inl (OtherError m), tr1)
         | Inr exif \<Rightarrow> (Inr (scan_tags lw (exif_tags exif)), tr1))"

section \<open>filter_photos_by_camera\<close>

text \<open>
  The test of the fast path: \<open>machine_tags = photo.get('machine_tags', '') or ''\<close>, then
  \<open>if machine_tags:\<close> and the substring test on the normalised strings.
\<close>

definition tag_fast_path :: "str_lower \<Rightarrow> string \<Rightarrow> photo \<Rightarrow> bool" where
  "tag_fast_path lw camera_model p =
     (let mt = (case machine_tags p of None \<Rightarrow> [] | Some s \<Rightarrow> s)
      in mt \<noteq> [] \<and> str_in (normalise lw camera_model) (normalise lw mt))"

text \<open>\<open>model and model.lower() == camera_model.lower()\<close>\<close>

definition model_equal :: "str_lower \<Rightarrow> string option \<Rightarrow> string \<Rightarrow> bool" where
  "model_equal lw model camera_model =
     (case model of
        None \<Rightarrow> False
      | Some m \<Rightarrow> m \<noteq> [] \<and> lw m = lw camera_model)"

text \<open>The \<open>for photo in photos\<close> loop, with the variable \<open>matching_ids\<close>.\<close>

fun filter_loop ::
  "str_lower \<Rightarrow> flickr \<Rightarrow> string \<Rightarrow> photo list \<Rightarrow> string list \<Rightarrow> trace
     \<Rightarrow> (exn + string list) \<times> trace" where
  "filter_loop lw fl camera_model [] matching_ids tr = (Inr matching_ids, tr)"
| "filter_loop lw fl camera_model (p # ps) matching_ids tr =
     (if tag_fast_path lw camera_model p
      then filter_loop lw fl camera_model ps (matching_ids @ [photo_id p]) tr
      else case get_camera_for_photo lw fl (photo_id p) tr of
             (Inl e, tr1) \<Rightarrow> (Inl e, tr1)
           | (Inr model, tr1) \<Rightarrow>
               if model_equal lw model camera_model
               then filter_loop lw fl camera_model ps (matching_ids @ [photo_id p]) tr1
               else filter_loop lw fl camera_model ps matching_ids tr1)"

definition filter_photos_by_camera ::
  "str_lower \<Rightarrow> flickr \<Rightarrow> photo list \<Rightarrow> string \<Rightarrow> trace \<Rightarrow> (exn + string list) \<times> trace" where
  "filter_photos_by_camera lw fl photos camera_model tr =
     filter_loop lw fl camera_model photos [] tr"

text \<open>
  What the body of the loop decides for one photo: the fast path, or else a lookup that
  returns metadata whose first Model entry equals the camera model.
\<close>

definition photo_matches :: "str_lower \<Rightarrow> flickr \<Rightarrow> string \<Rightarrow> photo \<Rightarrow> bool" where
  "photo_matches lw fl camera_model p =
     (tag_fast_path lw camera_model p
      \<or> (case photos_getExif fl (photo_id p) of
            Inl e \<Rightarrow> False
          | Inr exif \<Rightarrow> model_equal lw (scan_tags lw (exif_tags exif)) camera_model))"

section \<open>create_photoset and add_photos_to_photoset\<close>

definition create_photoset ::
  "flickr \<Rightarrow> string \<Rightarrow> string \<Rightarrow> string \<Rightarrow> trace \<Rightarrow> (exn + string) \<times> trace" where
  "create_photoset fl title primary_photo_id description tr =
     (photosets_create fl title primary_photo_id description,
      tr @ [PhotosetsCreate title primary_photo_id description])"

fun add_photos_to_photoset ::
  "flickr \<Rightarrow> string \<Rightarrow> string list \<Rightarrow> trace \<Rightarrow> (exn + unit) \<times> trace" where
  "add_photos_to_photoset fl photoset_id [] tr = (Inr (), tr)"
| "add_photos_to_photoset fl photoset_id (pid # pids) tr =
     (case photosets_addPhoto fl photoset_id pid of
        Inl e \<Rightarrow> (Inl e, tr @ [PhotosetsAddPhoto photoset_id pid])
      | Inr u \<Rightarrow>
          add_photos_to_photoset fl photoset_id pids
            (tr @ [PhotosetsAddPhoto photoset_id pid, Sleep 500]))"

section \<open>main\<close>

text \<open>The namespace \<open>parse_args\<close> returns.\<close>

record namespace =
  api_key :: string
  api_secret :: string
  user_id :: string
  camera_model :: string
  photoset_id :: "string option"
  album_title :: string
  album_desc :: string

text \<open>How a run ends: \<open>main\<close> returns, \<open>sys.exit(n)\<close>, or an exception nobody catches.\<close>

datatype outcome = Returned | SysExit int | Raised exn

fun exit_status :: "outcome \<Rightarrow> int" where
  "exit_status Returned = 0"
| "exit_status (SysExit n) = n"
| "exit_status (Raised e) = 1"

text \<open>
  \<open>main\<close> from the test \<open>if not matching_ids\<close> on: the message for an empty list, or the
  album in append mode (\<open>args.photoset_id\<close> is a non-empty string) or in create mode.
\<close>

definition main_album :: "flickr \<Rightarrow> namespace \<Rightarrow> string list \<Rightarrow> trace \<Rightarrow> outcome \<times> trace" where
  "main_album fl args matching_ids tr =
     (case matching_ids of
        [] \<Rightarrow> (Returned, tr @ [Print (MsgNoPhotosFound (camera_model args))])
      | primary_id # rest_ids \<Rightarrow>
          (let tr1 = tr @ [Print (MsgFound (length matching_ids) (camera_model args))]
           in case (case photoset_id args of None \<Rightarrow> None
                    | Some s \<Rightarrow> if s = [] then None else Some s) of
                Some psid \<Rightarrow>
                  (case add_photos_to_photoset fl psid matching_ids
                          (tr1 @ [Print (MsgAddingToExisting psid)]) of
                     (Inl e, tr2) \<Rightarrow> (Raised e, tr2)
                   | (Inr u, tr2) \<Rightarrow> (Returned, tr2 @ [Print MsgDone]))
              | None \<Rightarrow>
                  (case create_photoset fl (album_title args) primary_id (album_desc args)
                          (tr1 @ [Print (MsgCreating (album_title args))]) of
                     (Inl e, tr2) \<Rightarrow> (Raised e, tr2)
                   | (Inr psid, tr2) \<Rightarrow>
                       (let tr3 = tr2 @ [Print (MsgCreated psid)]
                        in if rest_ids \<noteq> [] then
                             (case add_photos_to_photoset fl psid rest_ids tr3 of
                                (Inl e, tr4) \<Rightarrow> (Raised e, tr4)
                              | (Inr u, tr4) \<Rightarrow> (Returned, tr4 @ [Print MsgAllAdded]))
                           else (Returned, tr3 @ [Print MsgAllAdded])))))"

definition main ::
  "str_lower \<Rightarrow> (string \<Rightarrow> string \<Rightarrow> flickr) \<Rightarrow> namespace \<Rightarrow> trace
     \<Rightarrow> (outcome \<times> trace) option" where
  "main lw FlickrAPI args tr =
     (if api_key args = [] \<or> api_secret args = []
      then Some (SysExit 1, tr @ [Print MsgCredentialsError])
      else case authenticate FlickrAPI (api_key args) (api_secret args) ''write'' tr of
             (Inl e, tr1) \<Rightarrow> Some (Raised e, tr1)
           | (Inr fl, tr1) \<Rightarrow>
               (case search_photos_by_user fl (user_id args) ''machine_tags'' 500
                       (tr1 @ [Print (MsgSearching (user_id args))]) of
                  None \<Rightarrow> None
                | Some (Inl e, tr2) \<Rightarrow> Some (Raised e, tr2)
                | Some (Inr photos, tr2) \<Rightarrow>
                    (case filter_photos_by_camera lw fl photos (camera_model args)
                            (tr2 @ [Print (MsgRetrieved (length photos))]) of
                       (Inl e, tr3) \<Rightarrow> Some (Raised e, tr3)
                     | (Inr matching_ids, tr3) \<Rightarrow>
                         Some (main_album fl args matching_ids tr3))))"

declare search_loop.simps [code]

section \<open>A sample service\<close>

text \<open>
  A concrete service on which the theorems below are instantiated: two pages of photos
  (three and two), the answers of \<open>getExif\<close> for some photos, and an album service
  that accepts everything. The runs on ASCII strings take \<open>ascii_lower\<close> for
  \<open>str.lower()\<close>.

  The accented strings are \<open>camera:model=CAM\<close>, capital E with acute accent (the bytes
  C3 89), \<open>RA X\<close>, and \<open>cam\<close>, small e with acute accent (C3 A9), \<open>ra x\<close>. The runs on
  them take \<open>latin1_lower\<close>, which also lowers the capital letters of the Latin-1
  supplement, U+00C0 to U+00DE without the multiplication sign U+00D7: in UTF-8 the byte
  C3 and a byte from 80 to 9E, where \<open>str.lower()\<close> adds 32 to the second byte.
\<close>

fun latin1_lower :: "string \<Rightarrow> string" where
  "latin1_lower [] = []"
| "latin1_lower [c] = [ascii_lower_char c]"
| "latin1_lower (c # d # s) =
     (let n = (of_char d :: nat)
      in if c = CHR 0xC3 \<and> 128 \<le> n \<and> n \<le> 158 \<and> n \<noteq> 151
         then c # char_of (n + 32) # latin1_lower s
         else ascii_lower_char c # latin1_lower (d # s))"

definition demo_target :: string where
  "demo_target = ''Canon EOS 7D Mark II''"

definition demo_p1 :: photo where
  "demo_p1 = \<lparr>photo_id = ''1'', machine_tags = Some ''exif:model=Canon-EOS-7D-Mark-II''\<rparr>"

definition demo_p2 :: photo where
  "demo_p2 = \<lparr>photo_id = ''2'', machine_tags = None\<rparr>"

definition demo_p3 :: photo where
  "demo_p3 = \<lparr>photo_id = ''3'', machine_tags = Some ''camera:make=nikon''\<rparr>"

definition demo_p4 :: photo where
  "demo_p4 = \<lparr>photo_id = ''4'', machine_tags = Some []\<rparr>"

definition demo_p5 :: photo where
  "demo_p5 = \<lparr>photo_id = ''5'', machine_tags = Some ''EXIF:MODEL=canon eos 7d mark ii''\<rparr>"



definition demo_tags_accent :: string where
  "demo_tags_accent = ''camera:model=CAM'' @ [CHR 0xC3, CHR 0x89] @ ''RA X''"

definition demo_target_accent :: string where
  "demo_target_accent = ''cam'' @ [CHR 0xC3, CHR 0xA9] @ ''ra x''"

definition demo_p8 :: photo where
  "demo_p8 = \<lparr>photo_id = ''8'', machine_tags = Some demo_tags_accent\<rparr>"


definition demo_make :: exif_tag where
  "demo_make =
     \<lparr>label = Some ''Make'', tag = Some ''Make'', raw = Some (RawDict (Some ''Canon''))\<rparr>"

definition demo_model_canon :: exif_tag where
  "demo_model_canon =
     \<lparr>label = Some ''Model'', tag = Some ''Model'',
      raw = Some (RawDict (Some ''CANON EOS 7D MARK II''))\<rparr>"

definition demo_model_nikon :: exif_tag where
  "demo_model_nikon =
     \<lparr>label = Some ''Model'', tag = Some ''Model'', raw = Some (RawDict (Some ''NIKON D50''))\<rparr>"

definition demo_model_accent :: exif_tag where
  "demo_model_accent =
     \<lparr>label = Some ''Model'', tag = Some ''Model'',
      raw = Some (RawDict (Some (''CAM'' @ [CHR 0xC3, CHR 0x89] @ ''RA X'')))\<rparr>"

definition demo_exif :: "string \<Rightarrow> exn + exif_response" where
  "demo_exif pid =
     (if pid = ''2'' then Inr (Some (Some [demo_make, demo_model_canon]))
      else if pid = ''4'' then Inr (Some (Some [demo_make]))
      else if pid = ''6'' then Inr (Some (Some [demo_model_nikon, demo_model_canon]))
      else if pid = ''9'' then Inr (Some (Some [demo_make, demo_model_accent]))
      else if pid = ''7'' then Inl (OtherError ''connection reset'')
      else Inl (FlickrError ''Permission denied''))"

definition demo_search :: "int \<Rightarrow> exn + search_response" where
  "demo_search page =
     (if page = 1 then Inr \<lparr>resp_photo = [demo_p1, demo_p2, demo_p3], resp_pages = 2\<rparr>
      else if page = 2 then Inr \<lparr>resp_photo = [demo_p4, demo_p5], resp_pages = 2\<rparr>
      else Inl (FlickrError ''no such page''))"

definition demo_flickr :: flickr where
  "demo_flickr =
     \<lparr>token_valid = (\<lambda>perms. Inr True),
      authenticate_via_browser = (\<lambda>perms. Inr ()),
      photos_search = (\<lambda>user_id extras per_page page. demo_search page),
      photos_getExif = demo_exif,
      photosets_create = (\<lambda>title primary_photo_id description. Inr ''72157''),
      photosets_addPhoto = (\<lambda>photoset_id pid. Inr ())\<rparr>"


definition demo_FlickrAPI :: "string \<Rightarrow> string \<Rightarrow> flickr" where
  "demo_FlickrAPI key secret = demo_flickr"

definition demo_args :: namespace where
  "demo_args =
     \<lparr>api_key = ''key'', api_secret = ''secret'', user_id = ''me'',
      camera_model = demo_target, photoset_id = None,
      album_title = ''Camera photos'', album_desc = []\<rparr>"


definition demo_args_leica :: namespace where
  "demo_args_leica = demo_args\<lparr>camera_model := ''Leica M3''\<rparr>"

definition demo_args_no_secret :: namespace where
  "demo_args_no_secret = demo_args\<lparr>api_secret := []\<rparr>"

section \<open>Properties of the string functions\<close>

lemma str_in_sublist: "str_in xs ys \<longleftrightarrow> sublist xs ys"
  by (induction ys) (auto simp: sublist_Cons_right)

lemma str_in_Nil: "str_in [] ys"
  by (simp add: str_in_sublist)

lemma lower_on_ascii_ascii_lower: "lower_on_ascii ascii_lower"
  by (simp add: lower_on_ascii_def)

lemma normalise_on_ascii:
  "lower_on_ascii lw \<Longrightarrow> list_all is_ascii s \<Longrightarrow> normalise lw s = normalise ascii_lower s"
  by (simp add: lower_on_ascii_def normalise_def)

lemma normalise_only_separators:
  assumes ag: "lower_on_ascii lw"
    and a: "set cm \<subseteq> {CHR '' '', CHR ''-'', CHR ''_''}"
  shows "normalise lw cm = []"
proof -
  have l: "ascii_lower_char c = c \<and> is_ascii c" if "c \<in> {CHR '' '', CHR ''-'', CHR ''_''}" for c
    using that by (auto simp: ascii_lower_char_def is_ascii_def)
  have asc: "list_all is_ascii cm"
    using a l by (auto simp: list_all_iff)
  have "ascii_lower cm = cm"
    unfolding ascii_lower_def using a l by (induction cm) auto
  then have "normalise ascii_lower cm = []"
    using a by (auto simp: normalise_def replace_empty_def filter_empty_conv)
  then show ?thesis
    using normalise_on_ascii[OF ag asc] by simp
qed

section \<open>Lemmas about the lookup and the loops\<close>

lemma get_camera_ok:
  "photos_getExif fl pid = Inr exif \<Longrightarrow>
   get_camera_for_photo lw fl pid tr = (Inr (scan_tags lw (exif_tags exif)), tr @ [PhotosGetExif pid])"
  by (simp add: get_camera_for_photo_def)

lemma get_camera_flickr_error:
  "photos_getExif fl pid = Inl (FlickrError m) \<Longrightarrow>
   get_camera_for_photo lw fl pid tr = (Inr None, tr @ [PhotosGetExif pid])"
  by (simp add: get_camera_for_photo_def)

lemma get_camera_other_error:
  "photos_getExif fl pid = Inl (OtherError m) \<Longrightarrow>
   get_camera_for_photo lw fl pid tr = (Inl (OtherError m), tr @ [PhotosGetExif pid])"
  by (simp add: get_camera_for_photo_def)

lemma filter_loop_fast:
  "tag_fast_path lw cm p \<Longrightarrow>
   filter_loop lw fl cm (p # ps) ids tr = filter_loop lw fl cm ps (ids @ [photo_id p]) tr"
  by simp

lemma filter_loop_lookup:
  "\<not> tag_fast_path lw cm p \<Longrightarrow> get_camera_for_photo lw fl (photo_id p) tr = (Inr model, tr1) \<Longrightarrow>
   filter_loop lw fl cm (p # ps) ids tr =
     filter_loop lw fl cm ps (if model_equal lw model cm then ids @ [photo_id p] else ids) tr1"
  by simp


lemma scan_tags_no_model:
  "\<forall>t \<in> set ts. \<not> is_model_tag lw t \<Longrightarrow> scan_tags lw ts = None"
  by (induction ts) simp_all

lemma tag_fast_path_iff:
  "tag_fast_path lw cm p \<longleftrightarrow>
     (\<exists>mt. machine_tags p = Some mt \<and> mt \<noteq> [] \<and> str_in (normalise lw cm) (normalise lw mt))"
  by (auto simp: tag_fast_path_def split: option.splits)

section \<open>The tag-based fast path\<close>

text \<open>
  Claim C1. A photo with a non-empty machine-tag string in which the normalised camera
  model occurs is appended to \<open>matching_ids\<close> and the loop goes on with the trace as it
  was: no \<open>getExif\<close> call is made, whatever the service would answer and whatever
  \<open>str.lower()\<close> does. The two tag strings \<open>exif:model=Canon-EOS-7D-Mark-II\<close> and
  \<open>EXIF:MODEL=canon eos 7d mark ii\<close> match the model \<open>Canon EOS 7D Mark II\<close> in this way,
  \<open>str.lower()\<close> being what it is on ASCII strings.
\<close>

theorem tag_fast_path_matches_without_lookup:
  "(machine_tags p = Some mt \<and> mt \<noteq> [] \<and> str_in (normalise lw cm) (normalise lw mt) \<longrightarrow>
      filter_loop lw fl cm (p # ps) ids tr = filter_loop lw fl cm ps (ids @ [photo_id p]) tr
      \<and> filter_photos_by_camera lw fl [p] cm tr = (Inr [photo_id p], tr))
   \<and> (lower_on_ascii lw \<longrightarrow>
        filter_photos_by_camera lw fl
          [\<lparr>photo_id = pid, machine_tags = Some ''exif:model=Canon-EOS-7D-Mark-II''\<rparr>]
          ''Canon EOS 7D Mark II'' tr = (Inr [pid], tr)
        \<and> filter_photos_by_camera lw fl
          [\<lparr>photo_id = pid, machine_tags = Some ''EXIF:MODEL=canon eos 7d mark ii''\<rparr>]
          ''Canon EOS 7D Mark II'' tr = (Inr [pid], tr))"
proof -
  have gen: "filter_loop lw fl cm (p # ps) ids tr = filter_loop lw fl cm ps (ids @ [photo_id p]) tr
      \<and> filter_photos_by_camera lw fl [p] cm tr = (Inr [photo_id p], tr)"
    if "tag_fast_path lw cm p" for p :: photo and cm ps ids
    using that by (simp add: filter_photos_by_camera_def)
  have ex: "filter_photos_by_camera lw fl
          [\<lparr>photo_id = pid, machine_tags = Some ''exif:model=Canon-EOS-7D-Mark-II''\<rparr>]
          ''Canon EOS 7D Mark II'' tr = (Inr [pid], tr)
        \<and> filter_photos_by_camera lw fl
          [\<lparr>photo_id = pid, machine_tags = Some ''EXIF:MODEL=canon eos 7d mark ii''\<rparr>]
          ''Canon EOS 7D Mark II'' tr = (Inr [pid], tr)"
    if ag: "lower_on_ascii lw"
  proof -
    have a0: "list_all is_ascii ''Canon EOS 7D Mark II''" by code_simp
    have a1: "list_all is_ascii ''exif:model=Canon-EOS-7D-Mark-II''" by code_simp
    have a2: "list_all is_ascii ''EXIF:MODEL=canon eos 7d mark ii''" by code_simp
    have n1: "str_in (normalise ascii_lower ''Canon EOS 7D Mark II'')
                (normalise ascii_lower ''exif:model=Canon-EOS-7D-Mark-II'')"
      by code_simp
    have n2: "str_in (normalise ascii_lower ''Canon EOS 7D Mark II'')
                (normalise ascii_lower ''EXIF:MODEL=canon eos 7d mark ii'')"
      by code_simp
    have f1: "tag_fast_path lw ''Canon EOS 7D Mark II''
                \<lparr>photo_id = pid, machine_tags = Some ''exif:model=Canon-EOS-7D-Mark-II''\<rparr>"
      using n1 normalise_on_ascii[OF ag a0] normalise_on_ascii[OF ag a1]
      by (simp add: tag_fast_path_def)
    have f2: "tag_fast_path lw ''Canon EOS 7D Mark II''
                \<lparr>photo_id = pid, machine_tags = Some ''EXIF:MODEL=canon eos 7d mark ii''\<rparr>"
      using n2 normalise_on_ascii[OF ag a0] normalise_on_ascii[OF ag a2]
      by (simp add: tag_fast_path_def)
    show ?thesis
      using gen[OF f1] gen[OF f2] by simp
  qed
  have fast: "tag_fast_path lw cm p"
    if "machine_tags p = Some mt \<and> mt \<noteq> [] \<and> str_in (normalise lw cm) (normalise lw mt)"
    using that by (auto simp: tag_fast_path_iff)
  show ?thesis
    using gen[OF fast] ex by blast
qed

theorem tag_fast_path_matches_without_lookup_witness:
  "(machine_tags demo_p1 = Some ''exif:model=Canon-EOS-7D-Mark-II''
    \<and> ''exif:model=Canon-EOS-7D-Mark-II'' \<noteq> []
    \<and> str_in (normalise ascii_lower demo_target)
         (normalise ascii_lower ''exif:model=Canon-EOS-7D-Mark-II'')
    \<and> lower_on_ascii ascii_lower
    \<and> filter_loop ascii_lower demo_flickr demo_target (demo_p1 # [demo_p5]) [] []
         = filter_loop ascii_lower demo_flickr demo_target [demo_p5] ([] @ [photo_id demo_p1]) []
    \<and> filter_photos_by_camera ascii_lower demo_flickr [demo_p1] demo_target [] = (Inr [''1''], [])
    \<and> filter_photos_by_camera ascii_lower demo_flickr
         [\<lparr>photo_id = ''5'', machine_tags = Some ''EXIF:MODEL=canon eos 7d mark ii''\<rparr>]
         ''Canon EOS 7D Mark II'' [] = (Inr [''5''], []))
   \<and> (machine_tags demo_p8 = Some demo_tags_accent \<and> demo_tags_accent \<noteq> []
    \<and> str_in (normalise latin1_lower demo_target_accent) (normalise latin1_lower demo_tags_accent)
    \<and> filter_photos_by_camera latin1_lower demo_flickr [demo_p8] demo_target_accent []
        = (Inr [''8''], []))"
proof -
  have ascii_run:
    "machine_tags demo_p1 = Some ''exif:model=Canon-EOS-7D-Mark-II''
       \<and> ''exif:model=Canon-EOS-7D-Mark-II'' \<noteq> []
       \<and> str_in (normalise ascii_lower demo_target)
            (normalise ascii_lower ''exif:model=Canon-EOS-7D-Mark-II'')
       \<and> lower_on_ascii ascii_lower
       \<and> filter_loop ascii_lower demo_flickr demo_target (demo_p1 # [demo_p5]) [] []
            = filter_loop ascii_lower demo_flickr demo_target [demo_p5] ([] @ [photo_id demo_p1]) []
       \<and> filter_photos_by_camera ascii_lower demo_flickr [demo_p1] demo_target [] = (Inr [''1''], [])
       \<and> filter_photos_by_camera ascii_lower demo_flickr
            [\<lparr>photo_id = ''5'', machine_tags = Some ''EXIF:MODEL=canon eos 7d mark ii''\<rparr>]
            ''Canon EOS 7D Mark II'' [] = (Inr [''5''], [])"
  proof -
    have h1: "machine_tags demo_p1 = Some ''exif:model=Canon-EOS-7D-Mark-II''"
      by (simp add: demo_p1_def)
    have h2: "str_in (normalise ascii_lower demo_target)
                (normalise ascii_lower ''exif:model=Canon-EOS-7D-Mark-II'')"
      by code_simp
    have h3: "photo_id demo_p1 = ''1''"
      by (simp add: demo_p1_def)
    show ?thesis
      using tag_fast_path_matches_without_lookup
        [where lw = ascii_lower and p = demo_p1 and mt = "''exif:model=Canon-EOS-7D-Mark-II''"
           and cm = demo_target and fl = demo_flickr and ps = "[demo_p5]" and ids = "[]"
           and tr = "[]" and pid = "''5''"]
        h1 h2 h3 lower_on_ascii_ascii_lower
      by simp
  qed
  have accent_run:
    "machine_tags demo_p8 = Some demo_tags_accent \<and> demo_tags_accent \<noteq> []
       \<and> str_in (normalise latin1_lower demo_target_accent) (normalise latin1_lower demo_tags_accent)
       \<and> filter_photos_by_camera latin1_lower demo_flickr [demo_p8] demo_target_accent []
           = (Inr [''8''], [])"
  proof -
    have g1: "machine_tags demo_p8 = Some demo_tags_accent" by (simp add: demo_p8_def)
    have g2: "demo_tags_accent \<noteq> []" by (simp add: demo_tags_accent_def)
    have g3: "str_in (normalise latin1_lower demo_target_accent)
                (normalise latin1_lower demo_tags_accent)"
      by code_simp
    have g4: "photo_id demo_p8 = ''8''" by (simp add: demo_p8_def)
    show ?thesis
      using tag_fast_path_matches_without_lookup
        [where lw = latin1_lower and p = demo_p8 and mt = demo_tags_accent
           and cm = demo_target_accent and fl = demo_flickr and tr = "[]"]
        g1 g2 g3 g4
      by simp
  qed
  show ?thesis
    using ascii_run accent_run by (rule conjI)
qed

text \<open>
  Claim C10. A camera model that is empty, or made of spaces, hyphens and underscores
  only, normalises to the empty string (\<open>str.lower()\<close> being what it is on ASCII
  strings), and when the normalised model is empty every photo with a non-empty
  machine-tag string is a match on the fast path, with no \<open>getExif\<close> call.
\<close>

theorem empty_target_matches_every_tagged_photo:
  "(lower_on_ascii lw \<and> set cm \<subseteq> {CHR '' '', CHR ''-'', CHR ''_''} \<longrightarrow> normalise lw cm = [])
   \<and> (normalise lw cm = [] \<and> machine_tags p = Some mt \<and> mt \<noteq> [] \<longrightarrow>
        filter_loop lw fl cm (p # ps) ids tr = filter_loop lw fl cm ps (ids @ [photo_id p]) tr
        \<and> filter_photos_by_camera lw fl [p] cm tr = (Inr [photo_id p], tr))"
proof -
  have "tag_fast_path lw cm p"
    if "normalise lw cm = []" and "machine_tags p = Some mt" and "mt \<noteq> []"
    using that by (simp add: tag_fast_path_def str_in_Nil)
  then show ?thesis
    using normalise_only_separators[of lw cm] by (auto simp: filter_photos_by_camera_def)
qed

theorem empty_target_matches_every_tagged_photo_witness:
  "lower_on_ascii ascii_lower
   \<and> set '' -_ '' \<subseteq> {CHR '' '', CHR ''-'', CHR ''_''}
   \<and> normalise ascii_lower '' -_ '' = [] \<and> normalise ascii_lower [] = []
   \<and> machine_tags demo_p3 = Some ''camera:make=nikon'' \<and> ''camera:make=nikon'' \<noteq> []
   \<and> filter_photos_by_camera ascii_lower demo_flickr [demo_p3] '' -_ '' [] = (Inr [''3''], [])
   \<and> filter_photos_by_camera ascii_lower demo_flickr [demo_p3] [] [] = (Inr [''3''], [])"
proof -
  have h1: "set '' -_ '' \<subseteq> {CHR '' '', CHR ''-'', CHR ''_''}" by simp
  have h2: "machine_tags demo_p3 = Some ''camera:make=nikon''"
    by (simp add: demo_p3_def)
  have h4: "photo_id demo_p3 = ''3''"
    by (simp add: demo_p3_def)
  show ?thesis
    using empty_target_matches_every_tagged_photo
            [where lw = ascii_lower and cm = "'' -_ ''" and p = demo_p3
               and mt = "''camera:make=nikon''" and fl = demo_flickr and ps = "[]"
               and ids = "[]" and tr = "[]"]
      empty_target_matches_every_tagged_photo
            [where lw = ascii_lower and cm = "[]" and p = demo_p3
               and mt = "''camera:make=nikon''" and fl = demo_flickr and ps = "[]"
               and ids = "[]" and tr = "[]"]
      h1 h2 h4 lower_on_ascii_ascii_lower
    by simp
qed

section \<open>The fallback on EXIF data\<close>

text \<open>
  Claim C7. When the fast path is not taken and the lookup raises \<open>FlickrError\<close>, or the
  metadata it returns holds no Model entry, the photo is not appended and the loop goes on
  with the remaining photos, the trace longer by the one \<open>getExif\<close> call; a list of
  photos whose lookups all raise \<open>FlickrError\<close> is processed to its end and
  \<open>filter_photos_by_camera\<close> returns the empty list, not an exception.
\<close>

theorem failed_lookup_is_no_match:
  "(\<not> tag_fast_path lw cm p \<and>
      (photos_getExif fl (photo_id p) = Inl (FlickrError m)
       \<or> (photos_getExif fl (photo_id p) = Inr exif
           \<and> list_all (\<lambda>t. \<not> is_model_tag lw t) (exif_tags exif))) \<longrightarrow>
      filter_loop lw fl cm (p # ps) ids tr
        = filter_loop lw fl cm ps ids (tr @ [PhotosGetExif (photo_id p)]))
   \<and> ((\<forall>q \<in> set qs. \<not> tag_fast_path lw cm q \<and>
          (\<exists>m. photos_getExif fl (photo_id q) = Inl (FlickrError m))) \<longrightarrow>
        filter_photos_by_camera lw fl qs cm tr
          = (Inr [], tr @ map (\<lambda>q. PhotosGetExif (photo_id q)) qs))"
proof -
  have step: "filter_loop lw fl cm (p # ps) ids tr
        = filter_loop lw fl cm ps ids (tr @ [PhotosGetExif (photo_id p)])"
    if nf: "\<not> tag_fast_path lw cm p"
      and r: "get_camera_for_photo lw fl (photo_id p) tr = (Inr None, tr @ [PhotosGetExif (photo_id p)])"
    for p :: photo and ps ids tr
    using filter_loop_lookup[OF nf r] by (simp add: model_equal_def)
  have one: "filter_loop lw fl cm (p # ps) ids tr
        = filter_loop lw fl cm ps ids (tr @ [PhotosGetExif (photo_id p)])"
    if "\<not> tag_fast_path lw cm p"
      and "photos_getExif fl (photo_id p) = Inl (FlickrError m)
       \<or> (photos_getExif fl (photo_id p) = Inr exif
           \<and> list_all (\<lambda>t. \<not> is_model_tag lw t) (exif_tags exif))"
    using that(2)
  proof
    assume "photos_getExif fl (photo_id p) = Inl (FlickrError m)"
    then show ?thesis
      using step[OF that(1)] get_camera_flickr_error by simp
  next
    assume a: "photos_getExif fl (photo_id p) = Inr exif
           \<and> list_all (\<lambda>t. \<not> is_model_tag lw t) (exif_tags exif)"
    then have "scan_tags lw (exif_tags exif) = None"
      by (simp add: scan_tags_no_model list_all_iff)
    then show ?thesis
      using step[OF that(1)] get_camera_ok[of fl "photo_id p" exif] a by simp
  qed
  have all: "filter_loop lw fl cm qs ids tr
          = (Inr ids, tr @ map (\<lambda>q. PhotosGetExif (photo_id q)) qs)"
    if "\<forall>q \<in> set qs. \<not> tag_fast_path lw cm q \<and>
          (\<exists>m. photos_getExif fl (photo_id q) = Inl (FlickrError m))"
    for ids tr
    using that
  proof (induction qs arbitrary: tr)
    case Nil
    then show ?case by simp
  next
    case (Cons q qs)
    from Cons.prems obtain m where nf: "\<not> tag_fast_path lw cm q"
      and e: "photos_getExif fl (photo_id q) = Inl (FlickrError m)"
      by auto
    have "filter_loop lw fl cm (q # qs) ids tr
        = filter_loop lw fl cm qs ids (tr @ [PhotosGetExif (photo_id q)])"
      using step[OF nf] get_camera_flickr_error[OF e] by simp
    then show ?case
      using Cons.IH[of "tr @ [PhotosGetExif (photo_id q)]"] Cons.prems by simp
  qed
  show ?thesis
    using one all[of "[]" tr] by (auto simp: filter_photos_by_camera_def)
qed

theorem failed_lookup_is_no_match_witness:
  "\<not> tag_fast_path ascii_lower demo_target demo_p3
   \<and> photos_getExif demo_flickr (photo_id demo_p3) = Inl (FlickrError ''Permission denied'')
   \<and> \<not> tag_fast_path ascii_lower demo_target demo_p4
   \<and> photos_getExif demo_flickr (photo_id demo_p4) = Inr (Some (Some [demo_make]))
   \<and> list_all (\<lambda>t. \<not> is_model_tag ascii_lower t) (exif_tags (Some (Some [demo_make])))
   \<and> filter_loop ascii_lower demo_flickr demo_target (demo_p3 # [demo_p1]) [] []
       = filter_loop ascii_lower demo_flickr demo_target [demo_p1] [] ([] @ [PhotosGetExif (photo_id demo_p3)])
   \<and> filter_loop ascii_lower demo_flickr demo_target (demo_p4 # [demo_p1]) [] []
       = filter_loop ascii_lower demo_flickr demo_target [demo_p1] [] ([] @ [PhotosGetExif (photo_id demo_p4)])
   \<and> filter_photos_by_camera ascii_lower demo_flickr [demo_p3, demo_p4, demo_p1] demo_target []
       = (Inr [''1''], [PhotosGetExif ''3'', PhotosGetExif ''4''])
   \<and> filter_photos_by_camera ascii_lower demo_flickr [demo_p3, demo_p3] demo_target []
       = (Inr [], [PhotosGetExif ''3'', PhotosGetExif ''3''])"
proof -
  have h1: "\<not> tag_fast_path ascii_lower demo_target demo_p3" by code_simp
  have h2: "photos_getExif demo_flickr (photo_id demo_p3) = Inl (FlickrError ''Permission denied'')"
    by code_simp
  have h3: "\<not> tag_fast_path ascii_lower demo_target demo_p4" by code_simp
  have h4: "photos_getExif demo_flickr (photo_id demo_p4) = Inr (Some (Some [demo_make]))"
    by code_simp
  have h5: "list_all (\<lambda>t. \<not> is_model_tag ascii_lower t) (exif_tags (Some (Some [demo_make])))"
    by code_simp
  have h6: "filter_photos_by_camera ascii_lower demo_flickr [demo_p3, demo_p4, demo_p1] demo_target []
       = (Inr [''1''], [PhotosGetExif ''3'', PhotosGetExif ''4''])"
    by code_simp
  have h7: "photo_id demo_p3 = ''3''" by (simp add: demo_p3_def)
  have h8: "\<forall>q \<in> set [demo_p3, demo_p3]. \<not> tag_fast_path ascii_lower demo_target q \<and>
          (\<exists>m. photos_getExif demo_flickr (photo_id q) = Inl (FlickrError m))"
    using h1 h2 by simp
  have c1: "filter_loop ascii_lower demo_flickr demo_target (demo_p3 # [demo_p1]) [] []
       = filter_loop ascii_lower demo_flickr demo_target [demo_p1] [] ([] @ [PhotosGetExif (photo_id demo_p3)])"
    using failed_lookup_is_no_match
      [where lw = ascii_lower and cm = demo_target and p = demo_p3 and fl = demo_flickr
         and m = "''Permission denied''" and ps = "[demo_p1]" and ids = "[]" and tr = "[]"]
      h1 h2 by blast
  have c2: "filter_loop ascii_lower demo_flickr demo_target (demo_p4 # [demo_p1]) [] []
       = filter_loop ascii_lower demo_flickr demo_target [demo_p1] [] ([] @ [PhotosGetExif (photo_id demo_p4)])"
    using failed_lookup_is_no_match
      [where lw = ascii_lower and cm = demo_target and p = demo_p4 and fl = demo_flickr
         and exif = "Some (Some [demo_make])" and ps = "[demo_p1]" and ids = "[]" and tr = "[]"]
      h3 h4 h5 by blast
  have c3: "filter_photos_by_camera ascii_lower demo_flickr [demo_p3, demo_p3] demo_target []
       = (Inr [], [] @ map (\<lambda>q. PhotosGetExif (photo_id q)) [demo_p3, demo_p3])"
    using failed_lookup_is_no_match
      [where lw = ascii_lower and cm = demo_target and fl = demo_flickr and tr = "[]"
         and qs = "[demo_p3, demo_p3]"]
      h8 by blast
  show ?thesis
    using h1 h2 h3 h4 h5 h6 c1 c2 c3 by (simp add: h7)
qed




section \<open>Enumeration of the pages\<close>

lemma search_loop_pages:
  assumes resp: "\<And>p. 1 \<le> p \<Longrightarrow> p \<le> P \<Longrightarrow>
      photos_search fl uid ex pp p = Inr \<lparr>resp_photo = pg p, resp_pages = P\<rparr>"
  shows "1 \<le> k \<Longrightarrow> k \<le> P \<Longrightarrow> n = nat (P - k) \<Longrightarrow>
    search_loop fl uid ex pp k acc tr =
      Some (Inr (acc @ concat (map pg [k..P])),
            tr @ concat (map (\<lambda>p. [PhotosSearch uid ex pp p, Sleep 1000]) [k..P - 1])
               @ [PhotosSearch uid ex pp P])"
proof (induction n arbitrary: k acc tr)
  case 0
  then have kP: "k = P" by simp
  show ?case
    by (subst search_loop.simps) (simp add: kP resp[OF "0.prems"(1) "0.prems"(2), simplified kP])
next
  case (Suc n)
  then have lt: "k < P" by simp
  have r: "photos_search fl uid ex pp k = Inr \<lparr>resp_photo = pg k, resp_pages = P\<rparr>"
    using resp Suc.prems by simp
  have ih: "search_loop fl uid ex pp (k + 1) (acc @ pg k)
              (tr @ [PhotosSearch uid ex pp k] @ [Sleep 1000]) =
      Some (Inr ((acc @ pg k) @ concat (map pg [k + 1..P])),
            (tr @ [PhotosSearch uid ex pp k] @ [Sleep 1000])
               @ concat (map (\<lambda>p. [PhotosSearch uid ex pp p, Sleep 1000]) [k + 1..P - 1])
               @ [PhotosSearch uid ex pp P])"
    using Suc.IH[of "k + 1"] Suc.prems by simp
  have u1: "[k..P] = k # [k + 1..P]" using lt by (simp add: upto_rec1)
  have u2: "[k..P - 1] = k # [k + 1..P - 1]" using lt by (simp add: upto_rec1)
  show ?case
    by (subst search_loop.simps) (use lt ih in \<open>simp add: r u1 u2\<close>)
qed

lemma search_calls_of_pages:
  "filter is_search_call (concat (map (\<lambda>p. [PhotosSearch uid ex pp p, Sleep 1000]) ps))
     = map (PhotosSearch uid ex pp) ps"
  by (induction ps) simp_all

text \<open>
  Claim C3. When every page from 1 to \<open>P\<close> (with \<open>P\<close> at least 1) is answered with the
  page count \<open>P\<close>, \<open>search_photos_by_user\<close> returns: its result is the photos of the pages
  1 to \<open>P\<close> put together in page order, each page once, and it makes exactly \<open>P\<close> search
  calls, for the pages 1 to \<open>P\<close> in this order, with a pause between two calls and none
  after the last. On two pages of three and two photos it returns five photos after two
  calls.
\<close>

theorem search_returns_all_pages:
  assumes P: "1 \<le> P"
    and resp: "\<forall>p. 1 \<le> p \<and> p \<le> P \<longrightarrow>
      photos_search fl uid ex pp p = Inr \<lparr>resp_photo = pg p, resp_pages = P\<rparr>"
  shows "\<exists>evs. search_photos_by_user fl uid ex pp tr
                 = Some (Inr (concat (map pg [1..P])), tr @ evs)
           \<and> evs = concat (map (\<lambda>p. [PhotosSearch uid ex pp p, Sleep 1000]) [1..P - 1])
                     @ [PhotosSearch uid ex pp P]
           \<and> filter is_search_call evs = map (PhotosSearch uid ex pp) [1..P]
           \<and> length (filter is_search_call evs) = nat P"
proof -
  have run: "search_photos_by_user fl uid ex pp tr =
      Some (Inr ([] @ concat (map pg [1..P])),
            tr @ concat (map (\<lambda>p. [PhotosSearch uid ex pp p, Sleep 1000]) [1..P - 1])
               @ [PhotosSearch uid ex pp P])"
    unfolding search_photos_by_user_def
    using search_loop_pages[of P fl uid ex pp pg 1 "nat (P - 1)" "[]" tr] P resp by simp
  have up: "[1..P] = [1..P - 1] @ [P]"
    using P upto_rec2[of 1 P] by simp
  have calls: "filter is_search_call
      (concat (map (\<lambda>p. [PhotosSearch uid ex pp p, Sleep 1000]) [1..P - 1])
         @ [PhotosSearch uid ex pp P]) = map (PhotosSearch uid ex pp) [1..P]"
    by (subst up) (simp add: search_calls_of_pages)
  have len: "length (map (PhotosSearch uid ex pp) [1..P]) = nat P"
    using P by simp
  show ?thesis
    using run calls len by simp
qed

theorem search_returns_all_pages_witness:
  "(1::int) \<le> 2
   \<and> photos_search demo_flickr ''me'' ''machine_tags'' 500 1
       = Inr \<lparr>resp_photo = [demo_p1, demo_p2, demo_p3], resp_pages = 2\<rparr>
   \<and> photos_search demo_flickr ''me'' ''machine_tags'' 500 2
       = Inr \<lparr>resp_photo = [demo_p4, demo_p5], resp_pages = 2\<rparr>
   \<and> search_photos_by_user demo_flickr ''me'' ''machine_tags'' 500 []
       = Some (Inr [demo_p1, demo_p2, demo_p3, demo_p4, demo_p5],
               [PhotosSearch ''me'' ''machine_tags'' 500 1, Sleep 1000,
                PhotosSearch ''me'' ''machine_tags'' 500 2])
   \<and> length [demo_p1, demo_p2, demo_p3, demo_p4, demo_p5] = 5
   \<and> length (filter is_search_call
        [PhotosSearch ''me'' ''machine_tags'' 500 1, Sleep 1000,
         PhotosSearch ''me'' ''machine_tags'' 500 2]) = 2"
proof -
  let ?pg = "\<lambda>p::int. if p = 1 then [demo_p1, demo_p2, demo_p3] else [demo_p4, demo_p5]"
  have s1: "photos_search demo_flickr ''me'' ''machine_tags'' 500 1
       = Inr \<lparr>resp_photo = [demo_p1, demo_p2, demo_p3], resp_pages = 2\<rparr>"
    by (simp add: demo_flickr_def demo_search_def)
  have s2: "photos_search demo_flickr ''me'' ''machine_tags'' 500 2
       = Inr \<lparr>resp_photo = [demo_p4, demo_p5], resp_pages = 2\<rparr>"
    by (simp add: demo_flickr_def demo_search_def)
  have resp: "\<forall>p. 1 \<le> p \<and> p \<le> 2 \<longrightarrow>
      photos_search demo_flickr ''me'' ''machine_tags'' 500 p
        = Inr \<lparr>resp_photo = ?pg p, resp_pages = 2\<rparr>"
  proof (intro allI impI)
    fix p :: int
    assume "1 \<le> p \<and> p \<le> 2"
    then have "p = 1 \<or> p = 2" by auto
    then show "photos_search demo_flickr ''me'' ''machine_tags'' 500 p
        = Inr \<lparr>resp_photo = ?pg p, resp_pages = 2\<rparr>"
      using s1 s2 by auto
  qed
  have u: "[1..2::int] = [1, 2]" "[1..2 - 1::int] = [1]"
    by (simp_all add: upto_rec1)
  have "search_photos_by_user demo_flickr ''me'' ''machine_tags'' 500 []
       = Some (Inr [demo_p1, demo_p2, demo_p3, demo_p4, demo_p5],
               [PhotosSearch ''me'' ''machine_tags'' 500 1, Sleep 1000,
                PhotosSearch ''me'' ''machine_tags'' 500 2])"
    using search_returns_all_pages
      [of 2 demo_flickr "''me''" "''machine_tags''" 500 ?pg "[]", OF _ resp]
    by (simp add: u)
  then show ?thesis
    using s1 s2 by simp
qed

section \<open>The output of the matcher\<close>

lemma filter_loop_all:
  assumes "\<forall>p \<in> set ps. \<not> tag_fast_path lw cm p \<longrightarrow>
             (\<forall>m. photos_getExif fl (photo_id p) \<noteq> Inl (OtherError m))"
  shows "fst (filter_loop lw fl cm ps ids tr)
           = Inr (ids @ map photo_id (filter (photo_matches lw fl cm) ps))"
  using assms
proof (induction ps arbitrary: ids tr)
  case Nil
  then show ?case by simp
next
  case (Cons p ps)
  have rest: "\<forall>q \<in> set ps. \<not> tag_fast_path lw cm q \<longrightarrow>
             (\<forall>m. photos_getExif fl (photo_id q) \<noteq> Inl (OtherError m))"
    using Cons.prems by simp
  show ?case
  proof (cases "tag_fast_path lw cm p")
    case True
    then show ?thesis
      using Cons.IH[OF rest] by (simp add: photo_matches_def)
  next
    case False
    then have no: "\<forall>m. photos_getExif fl (photo_id p) \<noteq> Inl (OtherError m)"
      using Cons.prems by simp
    show ?thesis
    proof (cases "photos_getExif fl (photo_id p)")
      case (Inl e)
      then obtain m where e: "photos_getExif fl (photo_id p) = Inl (FlickrError m)"
        using no by (cases e) auto
      show ?thesis
        using filter_loop_lookup[OF False get_camera_flickr_error[OF e]] Cons.IH[OF rest] False e
        by (simp add: photo_matches_def model_equal_def)
    next
      case (Inr exif)
      show ?thesis
        using filter_loop_lookup[OF False get_camera_ok[OF Inr]] Cons.IH[OF rest] False Inr
        by (simp add: photo_matches_def)
    qed
  qed
qed

text \<open>
  Claim C8, as amended. When no lookup raises an exception other than \<open>FlickrError\<close>,
  \<open>filter_photos_by_camera\<close> returns the identifiers of the matching photos in the order
  of the input, one entry for each matching record of the input. The output has no
  duplicates whenever the identifiers of the input records are distinct; the function
  removes none itself.
\<close>

theorem matcher_output_in_input_order:
  "(\<forall>p \<in> set photos. \<not> tag_fast_path lw cm p \<longrightarrow>
       (\<forall>m. photos_getExif fl (photo_id p) \<noteq> Inl (OtherError m))) \<longrightarrow>
     fst (filter_photos_by_camera lw fl photos cm tr)
       = Inr (map photo_id (filter (photo_matches lw fl cm) photos))
     \<and> (distinct (map photo_id photos) \<longrightarrow>
          distinct (map photo_id (filter (photo_matches lw fl cm) photos)))"
  using filter_loop_all[where ps = photos and lw = lw and cm = cm and fl = fl and ids = "[]" and tr = tr]
  by (auto simp: filter_photos_by_camera_def distinct_map_filter)

theorem matcher_output_in_input_order_witness:
  "distinct (map photo_id [demo_p1, demo_p2, demo_p3, demo_p4, demo_p5])
   \<and> map photo_id (filter (photo_matches ascii_lower demo_flickr demo_target)
        [demo_p1, demo_p2, demo_p3, demo_p4, demo_p5]) = [''1'', ''2'', ''5'']
   \<and> fst (filter_photos_by_camera ascii_lower demo_flickr
        [demo_p1, demo_p2, demo_p3, demo_p4, demo_p5] demo_target []) = Inr [''1'', ''2'', ''5'']
   \<and> distinct [''1'', ''2'', ''5'']"
proof -
  let ?ps = "[demo_p1, demo_p2, demo_p3, demo_p4, demo_p5]"
  have d: "distinct (map photo_id ?ps)" by code_simp
  have m: "map photo_id (filter (photo_matches ascii_lower demo_flickr demo_target) ?ps) = [''1'', ''2'', ''5'']"
    by code_simp
  have f1: "tag_fast_path ascii_lower demo_target demo_p1" by code_simp
  have f5: "tag_fast_path ascii_lower demo_target demo_p5" by code_simp
  have e2: "photos_getExif demo_flickr (photo_id demo_p2)
              = Inr (Some (Some [demo_make, demo_model_canon]))" by code_simp
  have e3: "photos_getExif demo_flickr (photo_id demo_p3) = Inl (FlickrError ''Permission denied'')"
    by code_simp
  have e4: "photos_getExif demo_flickr (photo_id demo_p4) = Inr (Some (Some [demo_make]))"
    by code_simp
  have h: "\<forall>p \<in> set ?ps. \<not> tag_fast_path ascii_lower demo_target p \<longrightarrow>
       (\<forall>m. photos_getExif demo_flickr (photo_id p) \<noteq> Inl (OtherError m))"
    using f1 f5 e2 e3 e4 by simp
  have "fst (filter_photos_by_camera ascii_lower demo_flickr ?ps demo_target [])
       = Inr (map photo_id (filter (photo_matches ascii_lower demo_flickr demo_target) ?ps))
     \<and> distinct (map photo_id (filter (photo_matches ascii_lower demo_flickr demo_target) ?ps))"
    using matcher_output_in_input_order
        [where lw = ascii_lower and photos = ?ps and cm = demo_target and fl = demo_flickr
           and tr = "[]"] h d
    by blast
  then show ?thesis
    using d m by simp
qed

text \<open>
  The claim as it was stated fails on an input that holds a record twice: both entries
  are appended.
\<close>

theorem matcher_output_duplicates_counterexample:
  "filter_photos_by_camera ascii_lower demo_flickr [demo_p1, demo_p1] demo_target [] = (Inr [''1'', ''1''], [])
   \<and> \<not> distinct [''1'', ''1'']"
  by code_simp

section \<open>The album\<close>

lemma add_photos_all_ok:
  "\<forall>pid \<in> set ids. photosets_addPhoto fl psid pid = Inr () \<Longrightarrow>
   add_photos_to_photoset fl psid ids tr
     = (Inr (), tr @ concat (map (\<lambda>pid. [PhotosetsAddPhoto psid pid, Sleep 500]) ids))"
  by (induction ids arbitrary: tr) simp_all

lemma album_calls_of_adds:
  "filter is_album_call (concat (map (\<lambda>pid. [PhotosetsAddPhoto psid pid, Sleep 500]) ids))
     = map (PhotosetsAddPhoto psid) ids"
  by (induction ids) simp_all

lemma add_call_in_adds:
  "PhotosetsAddPhoto psid a \<in> set (concat (map (\<lambda>pid. [PhotosetsAddPhoto psid pid, Sleep 500]) ids))
     \<longleftrightarrow> a \<in> set ids"
  by (induction ids) auto





text \<open>
  Claim C4, as amended. In create mode (\<open>args.photoset_id\<close> is \<open>None\<close> or empty), for a
  matched list \<open>a # rest\<close> and a service whose calls succeed, there is exactly one
  \<open>photosets.create\<close> call, with \<open>a\<close> as the primary photo, and then one \<open>addPhoto\<close> call
  for each identifier of \<open>rest\<close>, in order. The first element of the list is skipped by
  the \<open>addPhoto\<close> calls; \<open>a\<close> is passed to one exactly when it occurs again in \<open>rest\<close>.
\<close>

theorem create_mode_primary_then_rest:
  assumes mode: "photoset_id args = None \<or> photoset_id args = Some []"
    and created: "photosets_create fl (album_title args) a (album_desc args) = Inr psid"
    and ok: "\<forall>pid \<in> set rest. photosets_addPhoto fl psid pid = Inr ()"
  shows "\<exists>evs. main_album fl args (a # rest) tr = (Returned, tr @ evs)
     \<and> evs = [Print (MsgFound (length (a # rest)) (camera_model args)),
              Print (MsgCreating (album_title args)),
              PhotosetsCreate (album_title args) a (album_desc args),
              Print (MsgCreated psid)]
             @ concat (map (\<lambda>pid. [PhotosetsAddPhoto psid pid, Sleep 500]) rest)
             @ [Print MsgAllAdded]
     \<and> filter is_album_call evs
         = PhotosetsCreate (album_title args) a (album_desc args)
           # map (PhotosetsAddPhoto psid) rest
     \<and> (PhotosetsAddPhoto psid a \<in> set evs \<longleftrightarrow> a \<in> set rest)"
proof -
  let ?evs = "[Print (MsgFound (length (a # rest)) (camera_model args)),
              Print (MsgCreating (album_title args)),
              PhotosetsCreate (album_title args) a (album_desc args),
              Print (MsgCreated psid)]
             @ concat (map (\<lambda>pid. [PhotosetsAddPhoto psid pid, Sleep 500]) rest)
             @ [Print MsgAllAdded]"
  have sel: "(case photoset_id args of None \<Rightarrow> None
              | Some s \<Rightarrow> if s = [] then None else Some s) = None"
    using mode by auto
  have run: "main_album fl args (a # rest) tr = (Returned, tr @ ?evs)"
    unfolding main_album_def
    using created add_photos_all_ok[OF ok]
    by (cases rest) (simp_all add: sel create_photoset_def)
  have calls: "filter is_album_call ?evs
         = PhotosetsCreate (album_title args) a (album_desc args)
           # map (PhotosetsAddPhoto psid) rest"
    by (simp add: album_calls_of_adds)
  have mem: "PhotosetsAddPhoto psid a \<in> set ?evs \<longleftrightarrow> a \<in> set rest"
    using add_call_in_adds[of psid a rest] by auto
  show ?thesis
    using run calls mem by blast
qed

theorem create_mode_primary_then_rest_witness:
  "photoset_id demo_args = None
   \<and> photosets_create demo_flickr (album_title demo_args) ''1'' (album_desc demo_args)
       = Inr ''72157''
   \<and> photosets_addPhoto demo_flickr ''72157'' ''2'' = Inr ()
   \<and> photosets_addPhoto demo_flickr ''72157'' ''5'' = Inr ()
   \<and> main_album demo_flickr demo_args [''1'', ''2'', ''5''] []
       = (Returned,
          [Print (MsgFound 3 demo_target), Print (MsgCreating ''Camera photos''),
           PhotosetsCreate ''Camera photos'' ''1'' [], Print (MsgCreated ''72157''),
           PhotosetsAddPhoto ''72157'' ''2'', Sleep 500,
           PhotosetsAddPhoto ''72157'' ''5'', Sleep 500, Print MsgAllAdded])
   \<and> ''1'' \<notin> set [''2'', ''5'']"
proof -
  have mode: "photoset_id demo_args = None \<or> photoset_id demo_args = Some []"
    by (simp add: demo_args_def)
  have created: "photosets_create demo_flickr (album_title demo_args) ''1'' (album_desc demo_args)
       = Inr ''72157''"
    by (simp add: demo_flickr_def)
  have ok: "\<forall>pid \<in> set [''2'', ''5'']. photosets_addPhoto demo_flickr ''72157'' pid = Inr ()"
    by (simp add: demo_flickr_def)
  have f: "camera_model demo_args = demo_target" "album_title demo_args = ''Camera photos''"
      "album_desc demo_args = []" "photoset_id demo_args = None"
    by (simp_all add: demo_args_def)
  show ?thesis
    using create_mode_primary_then_rest[OF mode created ok, of "[]"] created ok
    by (simp add: f numeral_3_eq_3)
qed

text \<open>
  The claim as it was stated fails on a matched list that holds its first identifier
  twice: the second occurrence is passed to \<open>addPhoto\<close>.
\<close>

theorem create_mode_repeated_primary_counterexample:
  "photoset_id demo_args = None
   \<and> main_album demo_flickr demo_args [''1'', ''1''] []
       = (Returned,
          [Print (MsgFound 2 demo_target), Print (MsgCreating ''Camera photos''),
           PhotosetsCreate ''Camera photos'' ''1'' [], Print (MsgCreated ''72157''),
           PhotosetsAddPhoto ''72157'' ''1'', Sleep 500, Print MsgAllAdded])
   \<and> filter is_add_call (snd (main_album demo_flickr demo_args [''1'', ''1''] []))
       = [PhotosetsAddPhoto ''72157'' ''1'']"
  by code_simp

section \<open>The whole run\<close>

lemma authenticate_trace:
  "authenticate F k s perms tr = (r, tr') \<Longrightarrow>
   \<exists>evs. tr' = tr @ evs \<and> filter is_album_call evs = []"
  by (auto simp: authenticate_def Let_def split: sum.splits if_splits)

lemma search_loop_trace:
  assumes run: "search_loop fl u e pp page acc tr = Some res"
  shows "\<exists>evs. snd res = tr @ evs \<and> filter is_album_call evs = []"
proof (rule search_loop.raw_induct
    [where P = "\<lambda>fl u e pp page acc tr res.
                  \<exists>evs. snd res = tr @ evs \<and> filter is_album_call evs = []", OF _ run])
  fix loop :: "flickr \<Rightarrow> string \<Rightarrow> string \<Rightarrow> int \<Rightarrow> int \<Rightarrow> photo list \<Rightarrow> trace
                 \<Rightarrow> ((exn + photo list) \<times> trace) option"
  fix fl u e pp page acc tr res
  assume IH: "\<And>fl u e pp page acc tr res. loop fl u e pp page acc tr = Some res \<Longrightarrow>
      \<exists>evs. snd res = tr @ evs \<and> filter is_album_call evs = []"
  assume body: "(let tr1 = tr @ [PhotosSearch u e pp page]
      in case photos_search fl u e pp page of
           Inl e \<Rightarrow> Some (Inl e, tr1)
         | Inr response \<Rightarrow>
             (let photos1 = acc @ resp_photo response
              in if page \<ge> resp_pages response then Some (Inr photos1, tr1)
                 else loop fl u e pp (page + 1) photos1 (tr1 @ [Sleep 1000]))) = Some res"
  show "\<exists>evs. snd res = tr @ evs \<and> filter is_album_call evs = []"
  proof (cases "photos_search fl u e pp page")
    case (Inl x)
    then have "snd res = tr @ [PhotosSearch u e pp page]
               \<and> filter is_album_call [PhotosSearch u e pp page] = []"
      using body by auto
    then show ?thesis by blast
  next
    case (Inr response)
    show ?thesis
    proof (cases "page \<ge> resp_pages response")
      case True
      then have "snd res = tr @ [PhotosSearch u e pp page]
                 \<and> filter is_album_call [PhotosSearch u e pp page] = []"
        using body Inr by auto
      then show ?thesis by blast
    next
      case False
      then have "loop fl u e pp (page + 1) (acc @ resp_photo response)
                   ((tr @ [PhotosSearch u e pp page]) @ [Sleep 1000]) = Some res"
        using body Inr by (simp add: Let_def)
      from IH[OF this] obtain evs where
        "snd res = ((tr @ [PhotosSearch u e pp page]) @ [Sleep 1000]) @ evs"
        "filter is_album_call evs = []"
        by blast
      then have "snd res = tr @ ([PhotosSearch u e pp page, Sleep 1000] @ evs)
                 \<and> filter is_album_call ([PhotosSearch u e pp page, Sleep 1000] @ evs) = []"
        by simp
      then show ?thesis by blast
    qed
  qed
qed

lemma filter_loop_trace:
  "filter_loop lw fl cm ps ids tr = (r, tr') \<Longrightarrow>
   \<exists>evs. tr' = tr @ evs \<and> filter is_album_call evs = []"
proof (induction ps arbitrary: ids tr)
  case Nil
  then show ?case by simp
next
  case (Cons p ps)
  show ?case
  proof (cases "tag_fast_path lw cm p")
    case True
    then show ?thesis using Cons.IH Cons.prems by simp
  next
    case False
    show ?thesis
    proof (cases "photos_getExif fl (photo_id p)")
      case (Inl e)
      show ?thesis
      proof (cases e)
        case (FlickrError m)
        have e: "photos_getExif fl (photo_id p) = Inl (FlickrError m)"
          using Inl FlickrError by simp
        have "filter_loop lw fl cm ps ids (tr @ [PhotosGetExif (photo_id p)]) = (r, tr')"
          using filter_loop_lookup[OF False get_camera_flickr_error[OF e]] Cons.prems
          by (simp add: model_equal_def)
        from Cons.IH[OF this] obtain evs where
          "tr' = (tr @ [PhotosGetExif (photo_id p)]) @ evs" "filter is_album_call evs = []"
          by blast
        then have "tr' = tr @ (PhotosGetExif (photo_id p) # evs)
                   \<and> filter is_album_call (PhotosGetExif (photo_id p) # evs) = []"
          by simp
        then show ?thesis by blast
      next
        case (OtherError m)
        then have "tr' = tr @ [PhotosGetExif (photo_id p)]"
          using False Inl Cons.prems get_camera_other_error[where fl = fl and pid = "photo_id p" and m = m and tr = tr] by simp
        then have "tr' = tr @ [PhotosGetExif (photo_id p)]
                   \<and> filter is_album_call [PhotosGetExif (photo_id p)] = []"
          by simp
        then show ?thesis by blast
      qed
    next
      case (Inr exif)
      have "filter_loop lw fl cm (p # ps) ids tr =
          filter_loop lw fl cm ps
            (if model_equal lw (scan_tags lw (exif_tags exif)) cm then ids @ [photo_id p] else ids)
            (tr @ [PhotosGetExif (photo_id p)])"
        by (rule filter_loop_lookup[OF False get_camera_ok[OF Inr]])
      then have "\<exists>ids'. filter_loop lw fl cm ps ids' (tr @ [PhotosGetExif (photo_id p)]) = (r, tr')"
        using Cons.prems by metis
      then obtain ids' where
        "filter_loop lw fl cm ps ids' (tr @ [PhotosGetExif (photo_id p)]) = (r, tr')" ..
      from Cons.IH[OF this] obtain evs where
        "tr' = (tr @ [PhotosGetExif (photo_id p)]) @ evs" "filter is_album_call evs = []"
        by blast
      then have "tr' = tr @ (PhotosGetExif (photo_id p) # evs)
                 \<and> filter is_album_call (PhotosGetExif (photo_id p) # evs) = []"
        by simp
      then show ?thesis by blast
    qed
  qed
qed

text \<open>
  Claim C6. When the credentials are present, authentication and the search succeed and
  \<open>filter_photos_by_camera\<close> returns the empty list, \<open>main\<close> prints the message that no
  photos were found and returns, so the exit status is 0; the trace of the whole run
  holds no \<open>photosets.create\<close> and no \<open>addPhoto\<close> call.
\<close>

theorem no_match_no_album_call:
  assumes key: "api_key args \<noteq> []" and secret: "api_secret args \<noteq> []"
    and auth: "authenticate FlickrAPI (api_key args) (api_secret args) ''write'' [] = (Inr fl, tr1)"
    and search: "search_photos_by_user fl (user_id args) ''machine_tags'' 500
                   (tr1 @ [Print (MsgSearching (user_id args))]) = Some (Inr photos, tr2)"
    and filt: "filter_photos_by_camera lw fl photos (camera_model args)
                   (tr2 @ [Print (MsgRetrieved (length photos))]) = (Inr [], tr3)"
  shows "main lw FlickrAPI args []
           = Some (Returned, tr3 @ [Print (MsgNoPhotosFound (camera_model args))])
         \<and> exit_status Returned = 0
         \<and> filter is_album_call (tr3 @ [Print (MsgNoPhotosFound (camera_model args))]) = []
         \<and> main_album fl args [] tr = (Returned, tr @ [Print (MsgNoPhotosFound (camera_model args))])"
proof -
  have empty: "main_album fl args [] t = (Returned, t @ [Print (MsgNoPhotosFound (camera_model args))])"
    for t
    by (simp add: main_album_def)
  have run: "main lw FlickrAPI args []
           = Some (Returned, tr3 @ [Print (MsgNoPhotosFound (camera_model args))])"
    using key secret auth search filt by (simp add: main_def empty)
  obtain e1 where e1: "tr1 = [] @ e1" "filter is_album_call e1 = []"
    using authenticate_trace[OF auth] by blast
  obtain e2 where e2: "tr2 = (tr1 @ [Print (MsgSearching (user_id args))]) @ e2"
      "filter is_album_call e2 = []"
    using search_loop_trace[OF search[unfolded search_photos_by_user_def]] by auto
  obtain e3 where e3: "tr3 = (tr2 @ [Print (MsgRetrieved (length photos))]) @ e3"
      "filter is_album_call e3 = []"
    using filter_loop_trace[OF filt[unfolded filter_photos_by_camera_def]] by blast
  have quiet: "filter is_album_call (tr3 @ [Print (MsgNoPhotosFound (camera_model args))]) = []"
    using e1 e2 e3 by simp
  show ?thesis
    using run quiet empty by simp
qed

theorem no_match_no_album_call_witness:
  "api_key demo_args_leica \<noteq> [] \<and> api_secret demo_args_leica \<noteq> []
   \<and> authenticate demo_FlickrAPI (api_key demo_args_leica) (api_secret demo_args_leica)
        ''write'' [] = (Inr demo_flickr, [TokenValid ''write''])
   \<and> search_photos_by_user demo_flickr (user_id demo_args_leica) ''machine_tags'' 500
        ([TokenValid ''write''] @ [Print (MsgSearching (user_id demo_args_leica))])
       = Some (Inr [demo_p1, demo_p2, demo_p3, demo_p4, demo_p5],
               [TokenValid ''write'', Print (MsgSearching ''me''),
                PhotosSearch ''me'' ''machine_tags'' 500 1, Sleep 1000,
                PhotosSearch ''me'' ''machine_tags'' 500 2])
   \<and> main ascii_lower demo_FlickrAPI demo_args_leica []
       = Some (Returned,
               [TokenValid ''write'', Print (MsgSearching ''me''),
                PhotosSearch ''me'' ''machine_tags'' 500 1, Sleep 1000,
                PhotosSearch ''me'' ''machine_tags'' 500 2, Print (MsgRetrieved 5),
                PhotosGetExif ''1'', PhotosGetExif ''2'', PhotosGetExif ''3'',
                PhotosGetExif ''4'', PhotosGetExif ''5'',
                Print (MsgNoPhotosFound ''Leica M3'')])
   \<and> exit_status Returned = 0"
proof -
  let ?tr2 = "[TokenValid ''write'', Print (MsgSearching ''me''),
                PhotosSearch ''me'' ''machine_tags'' 500 1, Sleep 1000,
                PhotosSearch ''me'' ''machine_tags'' 500 2]"
  let ?tr3 = "[TokenValid ''write'', Print (MsgSearching ''me''),
                PhotosSearch ''me'' ''machine_tags'' 500 1, Sleep 1000,
                PhotosSearch ''me'' ''machine_tags'' 500 2, Print (MsgRetrieved 5),
                PhotosGetExif ''1'', PhotosGetExif ''2'', PhotosGetExif ''3'',
                PhotosGetExif ''4'', PhotosGetExif ''5'']"
  have key: "api_key demo_args_leica \<noteq> []" and secret: "api_secret demo_args_leica \<noteq> []"
    by (simp_all add: demo_args_leica_def demo_args_def)
  have auth: "authenticate demo_FlickrAPI (api_key demo_args_leica) (api_secret demo_args_leica)
        ''write'' [] = (Inr demo_flickr, [TokenValid ''write''])"
    by (simp add: authenticate_def demo_FlickrAPI_def demo_flickr_def)
  have search: "search_photos_by_user demo_flickr (user_id demo_args_leica) ''machine_tags'' 500
        ([TokenValid ''write''] @ [Print (MsgSearching (user_id demo_args_leica))])
       = Some (Inr [demo_p1, demo_p2, demo_p3, demo_p4, demo_p5], ?tr2)"
    by code_simp
  have filt: "filter_photos_by_camera ascii_lower demo_flickr [demo_p1, demo_p2, demo_p3, demo_p4, demo_p5]
        (camera_model demo_args_leica)
        (?tr2 @ [Print (MsgRetrieved (length [demo_p1, demo_p2, demo_p3, demo_p4, demo_p5]))])
       = (Inr [], ?tr3)"
    by code_simp
  have cm: "camera_model demo_args_leica = ''Leica M3''"
    by (simp add: demo_args_leica_def)
  show ?thesis
    using no_match_no_album_call[OF key secret auth search filt, of "[]"] key secret auth search
    by (simp add: cm)
qed

text \<open>
  Claim C9. When the API key or the secret is empty, \<open>main\<close> prints the error message
  and leaves with \<open>sys.exit(1)\<close>: the exit status is not 0 and the trace of the run holds
  the printed line only, no remote call.
\<close>

theorem missing_credentials_exit_before_network:
  "api_key args = [] \<or> api_secret args = [] \<longrightarrow>
     main lw FlickrAPI args [] = Some (SysExit 1, [Print MsgCredentialsError])
     \<and> exit_status (SysExit 1) \<noteq> 0
     \<and> filter is_network [Print MsgCredentialsError] = []"
  by (auto simp: main_def)

theorem missing_credentials_exit_before_network_witness:
  "api_secret demo_args_no_secret = []
   \<and> main ascii_lower demo_FlickrAPI demo_args_no_secret [] = Some (SysExit 1, [Print MsgCredentialsError])
   \<and> exit_status (SysExit 1) = 1"
proof -
  have h: "api_secret demo_args_no_secret = []"
    by (simp add: demo_args_no_secret_def)
  show ?thesis
    using missing_credentials_exit_before_network
        [where lw = ascii_lower and args = demo_args_no_secret and FlickrAPI = demo_FlickrAPI] h
    by simp
qed

end
